theory Spec2Isabelle
  imports Main "HOL-Library.AList"
begin

section \<open>The orchestrator of \<^verbatim>\<open>run_system.py\<close>\<close>

text \<open>
  The script starts a fixed list of service nodes and client nodes as child processes,
  polls them once a second, and terminates everything when the clients are done, when a
  service dies, or when the user presses Ctrl+C. The child processes themselves are
  outside the program: what \<^verbatim>\<open>Popen\<close>, \<^verbatim>\<open>poll\<close>, \<^verbatim>\<open>terminate\<close>,
  \<^verbatim>\<open>kill\<close> and the signal do is an environment, over which every theorem quantifies.
\<close>

subsection \<open>Data\<close>

text \<open>A \<^verbatim>\<open>Popen\<close> object is identified by a number given out at creation.\<close>

type_synonym handle = nat

text \<open>A list of \<^verbatim>\<open>(name, process)\<close> pairs, as \<^verbatim>\<open>start_group\<close> returns it.\<close>

type_synonym procs = "(string \<times> handle) list"

text \<open>
  The exceptions of the program: \<^verbatim>\<open>KeyboardInterrupt\<close>, raised by \<^verbatim>\<open>signal_handler\<close>
  (a \<^verbatim>\<open>BaseException\<close> that \<^verbatim>\<open>except Exception\<close> lets through), and \<^verbatim>\<open>OSError\<close>,
  standing for the \<^verbatim>\<open>Exception\<close>s that \<^verbatim>\<open>Popen\<close>, \<^verbatim>\<open>terminate\<close> and \<^verbatim>\<open>kill\<close> raise.
\<close>

datatype exn = KeyboardInterrupt | OSError

text \<open>The logging levels used, and one constructor for each message of the script.\<close>

datatype level = DEBUG | INFO | ERROR

datatype message =
    Banner
  | StartingSystem
  | Starting string
  | AllNodesStarted
  | StartingClients
  | AllClientsStarted
  | AlreadyStopped string
  | Waiting
  | CriticalExit string int
  | ClientFinished string int
  | AllClientsFinished
  | ShutdownRequested
  | ShuttingDown
  | AllNodesStopped

text \<open>
  What the program does to the outside, in order: calls of the logger, processes created
  (\<^verbatim>\<open>[sys.executable, script, node_name]\<close>), sleeps (in milliseconds), polls with their
  answer, and the two kinds of termination request.
\<close>

datatype event =
    Log level message
  | Spawn string string handle
  | Sleep nat
  | Poll handle "int option"
  | Terminate handle
  | Kill handle

text \<open>
  The environment answers by the position of the call in the run (\<open>clock\<close>, which every
  call to the outside advances by one): whether SIGINT has arrived when the call is made,
  whether \<^verbatim>\<open>Popen\<close> fails, what \<^verbatim>\<open>poll\<close> returns for a handle, and whether
  \<^verbatim>\<open>terminate\<close> and \<^verbatim>\<open>kill\<close> raise for it.
\<close>

record env =
  interrupt_at :: "nat \<Rightarrow> bool"
  spawn_fails :: "nat \<Rightarrow> bool"
  exit_status :: "handle \<Rightarrow> nat \<Rightarrow> int option"
  terminate_raises :: "handle \<Rightarrow> nat \<Rightarrow> bool"
  kill_raises :: "handle \<Rightarrow> nat \<Rightarrow> bool"

record world =
  clock :: nat
  next_handle :: handle
  trace :: "event list"

type_synonym 'a result = "(exn + 'a) \<times> world"

subsection \<open>Configuration\<close>

definition NODES :: "(string \<times> string) list" where
  "NODES =
    [(''Q1'', ''q1_node.py''),
     (''D'', ''d_node.py''),
     (''P11'', ''p1x_service.py''),
     (''P12'', ''p1x_service.py''),
     (''P13'', ''p1x_service.py''),
     (''Q21'', ''q2x_node.py''),
     (''Q22'', ''q2x_node.py''),
     (''Q23'', ''q2x_node.py''),
     (''P21'', ''p2x_service.py''),
     (''P22'', ''p2x_service.py''),
     (''P23'', ''p2x_service.py'')]"

definition CLIENT_NODES :: "(string \<times> string) list" where
  "CLIENT_NODES = [(''K1'', ''client.py''), (''K2'', ''client.py'')]"

text \<open>\<^verbatim>\<open>logging.basicConfig(level=logging.INFO)\<close>: what reaches the output.\<close>

fun level_rank :: "level \<Rightarrow> nat" where
  "level_rank DEBUG = 10"
| "level_rank INFO = 20"
| "level_rank ERROR = 40"

fun log_output :: "event list \<Rightarrow> (level \<times> message) list" where
  "log_output [] = []"
| "log_output (Log l m # es) =
     (if level_rank INFO \<le> level_rank l then (l, m) # log_output es else log_output es)"
| "log_output (e # es) = log_output es"

subsection \<open>Calls to the outside\<close>

definition tick :: "world \<Rightarrow> world" where
  "tick w = w\<lparr>clock := Suc (clock w)\<rparr>"

definition emit :: "event \<Rightarrow> world \<Rightarrow> world" where
  "emit e w = w\<lparr>trace := trace w @ [e]\<rparr>"

definition logger :: "level \<Rightarrow> message \<Rightarrow> world \<Rightarrow> world" where
  "logger l m w = emit (Log l m) w"

text \<open>\<^verbatim>\<open>time.sleep\<close>: the signal handler raises in it when SIGINT has arrived.\<close>

definition sleep :: "env \<Rightarrow> nat \<Rightarrow> world \<Rightarrow> unit result" where
  "sleep E ms w =
     (if interrupt_at E (clock w) then (Inl KeyboardInterrupt, tick w)
      else (Inr (), emit (Sleep ms) (tick w)))"

text \<open>\<^verbatim>\<open>subprocess.Popen([sys.executable, script, node_name], text=True)\<close>.\<close>

definition popen :: "env \<Rightarrow> string \<Rightarrow> string \<Rightarrow> world \<Rightarrow> handle result" where
  "popen E script node_name w =
     (if interrupt_at E (clock w) then (Inl KeyboardInterrupt, tick w)
      else if spawn_fails E (clock w) then (Inl OSError, tick w)
      else (Inr (next_handle w),
            emit (Spawn node_name script (next_handle w))
              ((tick w)\<lparr>next_handle := Suc (next_handle w)\<rparr>)))"

text \<open>\<^verbatim>\<open>proc.poll()\<close>: the exit code, or \<^verbatim>\<open>None\<close> while the process runs.\<close>

definition poll :: "env \<Rightarrow> handle \<Rightarrow> world \<Rightarrow> (int option) result" where
  "poll E proc w =
     (if interrupt_at E (clock w) then (Inl KeyboardInterrupt, tick w)
      else (Inr (exit_status E proc (clock w)),
            emit (Poll proc (exit_status E proc (clock w))) (tick w)))"

text \<open>\<^verbatim>\<open>proc.terminate()\<close> and \<^verbatim>\<open>proc.kill()\<close>: the request is made, and may raise.\<close>

definition terminate :: "env \<Rightarrow> handle \<Rightarrow> world \<Rightarrow> unit result" where
  "terminate E proc w =
     (if interrupt_at E (clock w) then (Inl KeyboardInterrupt, tick w)
      else if terminate_raises E proc (clock w)
        then (Inl OSError, emit (Terminate proc) (tick w))
      else (Inr (), emit (Terminate proc) (tick w)))"

definition kill :: "env \<Rightarrow> handle \<Rightarrow> world \<Rightarrow> unit result" where
  "kill E proc w =
     (if interrupt_at E (clock w) then (Inl KeyboardInterrupt, tick w)
      else if kill_raises E proc (clock w)
        then (Inl OSError, emit (Kill proc) (tick w))
      else (Inr (), emit (Kill proc) (tick w)))"

subsection \<open>Starting\<close>

definition start_node :: "env \<Rightarrow> string \<Rightarrow> string \<Rightarrow> world \<Rightarrow> handle result" where
  "start_node E node_name script w =
     popen E script node_name (logger INFO (Starting node_name) w)"

text \<open>The loop of \<^verbatim>\<open>start_group\<close>, with the list \<^verbatim>\<open>procs\<close> built so far.\<close>

fun start_group_loop :: "env \<Rightarrow> (string \<times> string) list \<Rightarrow> procs \<Rightarrow> world \<Rightarrow> procs result" where
  "start_group_loop E [] procs w = (Inr procs, w)"
| "start_group_loop E ((node_name, script) # grp) procs w =
     (case start_node E node_name script w of
        (Inl e, w1) \<Rightarrow> (Inl e, w1)
      | (Inr proc, w1) \<Rightarrow>
          (case sleep E 500 w1 of
             (Inl e, w2) \<Rightarrow> (Inl e, w2)
           | (Inr u, w2) \<Rightarrow> start_group_loop E grp (procs @ [(node_name, proc)]) w2))"

definition start_group :: "env \<Rightarrow> (string \<times> string) list \<Rightarrow> world \<Rightarrow> procs result" where
  "start_group E grp w = start_group_loop E grp [] w"

subsection \<open>Stopping\<close>

text \<open>The first loop of \<^verbatim>\<open>stop_processes\<close>: \<^verbatim>\<open>except Exception\<close> logs at debug level.\<close>

fun terminate_loop :: "env \<Rightarrow> procs \<Rightarrow> world \<Rightarrow> unit result" where
  "terminate_loop E [] w = (Inr (), w)"
| "terminate_loop E ((name, proc) # processes) w =
     (case terminate E proc w of
        (Inr u, w1) \<Rightarrow> terminate_loop E processes w1
      | (Inl OSError, w1) \<Rightarrow>
          terminate_loop E processes (logger DEBUG (AlreadyStopped name) w1)
      | (Inl KeyboardInterrupt, w1) \<Rightarrow> (Inl KeyboardInterrupt, w1))"

text \<open>The second loop: \<^verbatim>\<open>except Exception: pass\<close>.\<close>

fun kill_loop :: "env \<Rightarrow> procs \<Rightarrow> world \<Rightarrow> unit result" where
  "kill_loop E [] w = (Inr (), w)"
| "kill_loop E ((name, proc) # processes) w =
     (case kill E proc w of
        (Inr u, w1) \<Rightarrow> kill_loop E processes w1
      | (Inl OSError, w1) \<Rightarrow> kill_loop E processes w1
      | (Inl KeyboardInterrupt, w1) \<Rightarrow> (Inl KeyboardInterrupt, w1))"

definition stop_processes :: "env \<Rightarrow> procs \<Rightarrow> world \<Rightarrow> unit result" where
  "stop_processes E processes w =
     (case terminate_loop E processes w of
        (Inl e, w1) \<Rightarrow> (Inl e, w1)
      | (Inr u, w1) \<Rightarrow>
          (case sleep E 2000 w1 of
             (Inl e, w2) \<Rightarrow> (Inl e, w2)
           | (Inr u, w2) \<Rightarrow> kill_loop E processes w2))"

subsection \<open>Waiting\<close>

text \<open>
  \<^verbatim>\<open>dict(client_procs)\<close>: a repeated name keeps its first position and takes the last
  process. The dictionary is kept as its list of items, in Python's iteration order.
\<close>

definition dict :: "procs \<Rightarrow> procs" where
  "dict client_procs = foldl (\<lambda>d (name, proc). AList.update name proc d) [] client_procs"

text \<open>
  The loop over the services: the first one whose \<^verbatim>\<open>poll()\<close> is not \<^verbatim>\<open>None\<close> is logged
  as an error and ends the function; the result says whether that happened.
\<close>

fun poll_services :: "env \<Rightarrow> procs \<Rightarrow> world \<Rightarrow> bool result" where
  "poll_services E [] w = (Inr False, w)"
| "poll_services E ((svc_name, svc_proc) # service_procs) w =
     (case poll E svc_proc w of
        (Inl e, w1) \<Rightarrow> (Inl e, w1)
      | (Inr None, w1) \<Rightarrow> poll_services E service_procs w1
      | (Inr (Some returncode), w1) \<Rightarrow>
          (Inr True, logger ERROR (CriticalExit svc_name returncode) w1))"

text \<open>The loop over \<^verbatim>\<open>remaining.items()\<close>, collecting the names in \<^verbatim>\<open>finished\<close>.\<close>

fun poll_clients :: "env \<Rightarrow> procs \<Rightarrow> string list \<Rightarrow> world \<Rightarrow> (string list) result" where
  "poll_clients E [] finished w = (Inr finished, w)"
| "poll_clients E ((name, proc) # items) finished w =
     (case poll E proc w of
        (Inl e, w1) \<Rightarrow> (Inl e, w1)
      | (Inr None, w1) \<Rightarrow> poll_clients E items finished w1
      | (Inr (Some ret), w1) \<Rightarrow>
          poll_clients E items (finished @ [name]) (logger INFO (ClientFinished name ret) w1))"

text \<open>\<^verbatim>\<open>for name in finished: remaining.pop(name, None)\<close>.\<close>

definition pop_all :: "string list \<Rightarrow> procs \<Rightarrow> procs" where
  "pop_all finished remaining = foldl (\<lambda>d name. AList.delete name d) remaining finished"

text \<open>
  One pass through the body of \<^verbatim>\<open>while remaining\<close>: \<open>Inr None\<close> is the \<^verbatim>\<open>return\<close> in
  the loop over the services, \<open>Inr (Some d)\<close> the end of the body with the dictionary \<open>d\<close>.
\<close>

definition wait_body :: "env \<Rightarrow> procs \<Rightarrow> procs \<Rightarrow> world \<Rightarrow> (procs option) result" where
  "wait_body E remaining service_procs w =
     (case sleep E 1000 w of
        (Inl e, w1) \<Rightarrow> (Inl e, w1)
      | (Inr u, w1) \<Rightarrow>
          (case poll_services E service_procs w1 of
             (Inl e, w2) \<Rightarrow> (Inl e, w2)
           | (Inr True, w2) \<Rightarrow> (Inr None, w2)
           | (Inr False, w2) \<Rightarrow>
               (case poll_clients E remaining [] w2 of
                  (Inl e, w3) \<Rightarrow> (Inl e, w3)
                | (Inr finished, w3) \<Rightarrow> (Inr (Some (pop_all finished remaining)), w3))))"

text \<open>The loop may run for ever: \<open>None\<close> is the run that never returns.\<close>

partial_function (option) wait_loop :: "env \<Rightarrow> procs \<Rightarrow> procs \<Rightarrow> world \<Rightarrow> (unit result) option" where
  "wait_loop E remaining service_procs w =
     (if remaining = [] then Some (Inr (), logger INFO AllClientsFinished w)
      else
        (case wait_body E remaining service_procs w of
           (Inl e, w1) \<Rightarrow> Some (Inl e, w1)
         | (Inr None, w1) \<Rightarrow> Some (Inr (), w1)
         | (Inr (Some remaining'), w1) \<Rightarrow> wait_loop E remaining' service_procs w1))"

declare wait_loop.simps [code]

definition wait_for_clients :: "env \<Rightarrow> procs \<Rightarrow> procs \<Rightarrow> world \<Rightarrow> (unit result) option" where
  "wait_for_clients E client_procs service_procs w =
     wait_loop E (dict client_procs) service_procs (logger INFO Waiting w)"

subsection \<open>The main sequence\<close>

text \<open>Several \<^verbatim>\<open>logger.info\<close> calls in a row.\<close>

definition info :: "message list \<Rightarrow> world \<Rightarrow> world" where
  "info ms w = foldl (\<lambda>w' m. logger INFO m w') w ms"

text \<open>
  The body of \<^verbatim>\<open>try\<close> in \<^verbatim>\<open>main\<close>. With how it ended come the local variables
  \<^verbatim>\<open>service_procs\<close> and \<^verbatim>\<open>client_procs\<close>: \<open>None\<close> for one that was never assigned,
  which is what \<^verbatim>\<open>'client_procs' in locals()\<close> tests. \<^verbatim>\<open>signal.signal\<close> before it
  installs \<^verbatim>\<open>signal_handler\<close>, which is why an interrupt is a \<^verbatim>\<open>KeyboardInterrupt\<close>.
\<close>

definition main_try ::
  "env \<Rightarrow> world \<Rightarrow> ((exn + unit) \<times> procs option \<times> procs option \<times> world) option" where
  "main_try E w =
     (case start_group E NODES (info [Banner, StartingSystem, Banner] w) of
        (Inl e, w1) \<Rightarrow> Some (Inl e, None, None, w1)
      | (Inr service_procs, w1) \<Rightarrow>
          (case sleep E 3000 (info [AllNodesStarted] w1) of
             (Inl e, w2) \<Rightarrow> Some (Inl e, Some service_procs, None, w2)
           | (Inr u, w2) \<Rightarrow>
               (case start_group E CLIENT_NODES (info [Banner, StartingClients, Banner] w2) of
                  (Inl e, w3) \<Rightarrow> Some (Inl e, Some service_procs, None, w3)
                | (Inr client_procs, w3) \<Rightarrow>
                    (case wait_for_clients E client_procs service_procs
                            (info [AllClientsStarted] w3) of
                       None \<Rightarrow> None
                     | Some (r, w4) \<Rightarrow> Some (r, Some service_procs, Some client_procs, w4)))))"

text \<open>\<^verbatim>\<open>x if 'x' in locals() else []\<close>.\<close>

fun or_empty :: "procs option \<Rightarrow> procs" where
  "or_empty None = []"
| "or_empty (Some ps) = ps"

text \<open>The \<^verbatim>\<open>finally\<close> block.\<close>

definition main_finally :: "env \<Rightarrow> procs option \<Rightarrow> procs option \<Rightarrow> world \<Rightarrow> unit result" where
  "main_finally E service_procs client_procs w =
     (case stop_processes E (or_empty client_procs) (info [Banner, ShuttingDown, Banner] w) of
        (Inl e, w1) \<Rightarrow> (Inl e, w1)
      | (Inr u, w1) \<Rightarrow>
          (case stop_processes E (or_empty service_procs) w1 of
             (Inl e, w2) \<Rightarrow> (Inl e, w2)
           | (Inr u, w2) \<Rightarrow> (Inr (), info [AllNodesStopped] w2)))"

text \<open>
  \<^verbatim>\<open>try ... except KeyboardInterrupt ... finally\<close>: the handler logs; the \<^verbatim>\<open>finally\<close>
  block runs in every case; an exception raised in it leaves \<^verbatim>\<open>main\<close>, and otherwise
  an exception of the body that no handler took is raised again after it.
\<close>

definition main :: "env \<Rightarrow> world \<Rightarrow> (unit result) option" where
  "main E w =
     (case main_try E w of
        None \<Rightarrow> None
      | Some (r, service_procs, client_procs, w1) \<Rightarrow>
          (case main_finally E service_procs client_procs
                  (case r of Inl KeyboardInterrupt \<Rightarrow> info [ShutdownRequested] w1 | _ \<Rightarrow> w1) of
             (Inl e, w2) \<Rightarrow> Some (Inl e, w2)
           | (Inr u, w2) \<Rightarrow>
               (case r of
                  Inl OSError \<Rightarrow> Some (Inl OSError, w2)
                | _ \<Rightarrow> Some (Inr (), w2))))"

text \<open>
  The exit status of the script, \<^verbatim>\<open>main()\<close> being its last statement: 0 when \<^verbatim>\<open>main\<close>
  returns, the interpreter's 1 for an uncaught exception and 130 for an uncaught
  \<^verbatim>\<open>KeyboardInterrupt\<close>.
\<close>

fun exit_code :: "exn + unit \<Rightarrow> nat" where
  "exit_code (Inr u) = 0"
| "exit_code (Inl OSError) = 1"
| "exit_code (Inl KeyboardInterrupt) = 130"

text \<open>The state in which the script starts.\<close>

definition init :: world where
  "init = \<lparr>clock = 0, next_handle = 0, trace = []\<rparr>"

subsection \<open>Notions for stating the properties\<close>

text \<open>The events other than logger calls: what is done to the child processes, and the sleeps.\<close>

fun is_log :: "event \<Rightarrow> bool" where
  "is_log (Log l m) = True"
| "is_log e = False"

definition actions :: "event list \<Rightarrow> event list" where
  "actions es = filter (\<lambda>e. \<not> is_log e) es"

text \<open>The events that a computation leading from \<open>w\<close> to \<open>w'\<close> has added.\<close>

definition since :: "world \<Rightarrow> world \<Rightarrow> event list" where
  "since w w' = drop (length (trace w)) (trace w')"

text \<open>An environment in which nothing happens: no signal, no failure, no process exits.\<close>

definition quiet :: env where
  "quiet =
     \<lparr>interrupt_at = (\<lambda>t. False), spawn_fails = (\<lambda>t. False), exit_status = (\<lambda>h t. None),
      terminate_raises = (\<lambda>h t. False), kill_raises = (\<lambda>h t. False)\<rparr>"

text \<open>
  What the first loop of \<^verbatim>\<open>stop_processes\<close> adds to the trace when no signal arrives,
  the loop starting at clock \<open>c\<close>: used to state the lemmas about that loop.
\<close>

fun terminate_trace :: "env \<Rightarrow> procs \<Rightarrow> nat \<Rightarrow> event list" where
  "terminate_trace E [] c = []"
| "terminate_trace E ((name, proc) # processes) c =
     Terminate proc #
     (if terminate_raises E proc c then [Log DEBUG (AlreadyStopped name)] else []) @
     terminate_trace E processes (Suc c)"

text \<open>
  Environments for examples: one in which every \<^verbatim>\<open>terminate\<close> and \<^verbatim>\<open>kill\<close> raises
  (the processes are gone), and one in which only \<^verbatim>\<open>kill\<close> does.
\<close>

definition gone :: env where
  "gone = quiet\<lparr>terminate_raises := (\<lambda>h t. True), kill_raises := (\<lambda>h t. True)\<rparr>"

definition kill_fails :: env where
  "kill_fails = quiet\<lparr>kill_raises := (\<lambda>h t. True)\<rparr>"

text \<open>
  What \<^verbatim>\<open>start_group\<close> adds to the trace when every node starts, \<open>h\<close> being the
  first handle given out: for each node the log line, the process and the pause.
\<close>

definition started :: "(string \<times> string) list \<Rightarrow> handle \<Rightarrow> event list" where
  "started grp h =
     concat (map (\<lambda>((node_name, script), proc).
                    [Log INFO (Starting node_name), Spawn node_name script proc, Sleep 500])
               (zip grp [h ..< h + length grp]))"

text \<open>An environment in which the second \<^verbatim>\<open>Popen\<close> of the run fails (the call at clock 2).\<close>

definition second_spawn_fails :: env where
  "second_spawn_fails = quiet\<lparr>spawn_fails := (\<lambda>t. t = 2)\<rparr>"

text \<open>
  What the loop over the clients adds to the trace when no signal arrives, the loop
  starting at clock \<open>c\<close>, and the names it collects in \<^verbatim>\<open>finished\<close>.
\<close>

fun client_trace :: "env \<Rightarrow> procs \<Rightarrow> nat \<Rightarrow> event list" where
  "client_trace E [] c = []"
| "client_trace E ((name, proc) # items) c =
     Poll proc (exit_status E proc c) #
     (case exit_status E proc c of
        None \<Rightarrow> []
      | Some ret \<Rightarrow> [Log INFO (ClientFinished name ret)]) @
     client_trace E items (Suc c)"

fun finished_at :: "env \<Rightarrow> procs \<Rightarrow> nat \<Rightarrow> string list" where
  "finished_at E [] c = []"
| "finished_at E ((name, proc) # items) c =
     (if exit_status E proc c = None then [] else [name]) @ finished_at E items (Suc c)"

text \<open>The creation of a process, and the computations that create none.\<close>

fun is_spawn :: "event \<Rightarrow> bool" where
  "is_spawn (Spawn node_name script proc) = True"
| "is_spawn e = False"

definition no_spawn :: "world \<Rightarrow> world \<Rightarrow> bool" where
  "no_spawn w w' \<longleftrightarrow>
     next_handle w' = next_handle w \<and> filter is_spawn (trace w') = filter is_spawn (trace w)"

text \<open>
  Environments for examples: the service with handle 0 has exited with code 1; the
  client with handle 1 has exited with code 0, at once or from clock 4 on; the processes
  with handles 1 and 2 have both exited, with codes 7 and 9.
\<close>

definition service_dies :: env where
  "service_dies = quiet\<lparr>exit_status := (\<lambda>h t. if h = 0 then Some 1 else None)\<rparr>"

definition client_done :: env where
  "client_done = quiet\<lparr>exit_status := (\<lambda>h t. if h = 1 then Some 0 else None)\<rparr>"

definition late_client :: env where
  "late_client = quiet\<lparr>exit_status := (\<lambda>h t. if h = 1 \<and> 4 \<le> t then Some 0 else None)\<rparr>"

definition two_exited :: env where
  "two_exited = quiet\<lparr>exit_status := (\<lambda>h t. if h = 1 then Some 7 else if h = 2 then Some 9 else None)\<rparr>"

(*PROPERTIES*)
section \<open>Properties\<close>

subsection \<open>The state after a call to the outside\<close>

lemma tick_simps [simp]:
  "clock (tick w) = Suc (clock w)"
  "next_handle (tick w) = next_handle w"
  "trace (tick w) = trace w"
  by (simp_all add: tick_def)

lemma emit_simps [simp]:
  "clock (emit e w) = clock w"
  "next_handle (emit e w) = next_handle w"
  "trace (emit e w) = trace w @ [e]"
  by (simp_all add: emit_def)

lemma logger_simps [simp]:
  "clock (logger l m w) = clock w"
  "next_handle (logger l m w) = next_handle w"
  "trace (logger l m w) = trace w @ [Log l m]"
  by (simp_all add: logger_def)

lemma info_simps [simp]:
  "clock (info ms w) = clock w"
  "next_handle (info ms w) = next_handle w"
  "trace (info ms w) = trace w @ map (Log INFO) ms"
  by (induction ms arbitrary: w) (simp_all add: info_def)

subsection \<open>Waiting with no clients\<close>

text \<open>
  C9. With an empty client list \<^verbatim>\<open>wait_for_clients\<close> returns at once: the state it
  returns is the one it was called in, with the two log lines "Waiting for clients ..."
  and "All clients finished ..." added. The clock has not moved and no event but the
  two log lines is added: no sleep and no poll was made, whatever the environment says
  about the services.
\<close>

theorem wait_for_clients_no_clients:
  "wait_for_clients E [] service_procs w =
     Some (Inr (), w\<lparr>trace := trace w @ [Log INFO Waiting, Log INFO AllClientsFinished]\<rparr>)"
  by (simp add: wait_for_clients_def dict_def wait_loop.simps logger_def emit_def)

subsection \<open>Traces\<close>

lemma since_append: "trace w' = trace w @ es \<Longrightarrow> since w w' = es"
  by (simp add: since_def)

lemma actions_append: "actions (xs @ ys) = actions xs @ actions ys"
  by (simp add: actions_def)

lemma log_output_append: "log_output (xs @ ys) = log_output xs @ log_output ys"
  by (induction xs rule: log_output.induct) simp_all

lemma actions_terminate_trace:
  "actions (terminate_trace E ps c) = map (\<lambda>p. Terminate (snd p)) ps"
  by (induction E ps c rule: terminate_trace.induct) (simp_all add: actions_def)

lemma log_output_terminate_trace: "log_output (terminate_trace E ps c) = []"
  by (induction E ps c rule: terminate_trace.induct) simp_all

lemma logs_terminate_trace:
  "filter is_log (terminate_trace E ps c) =
     map (\<lambda>(t, name, proc). Log DEBUG (AlreadyStopped name))
       (filter (\<lambda>(t, name, proc). terminate_raises E proc t) (enumerate c ps))"
  by (induction E ps c rule: terminate_trace.induct) simp_all

lemma actions_kills: "actions (map (\<lambda>p. Kill (snd p)) ps) = map (\<lambda>p. Kill (snd p)) ps"
  by (induction ps) (simp_all add: actions_def)

lemma log_output_kills: "log_output (map (\<lambda>p. Kill (snd p)) ps) = []"
  by (induction ps) simp_all

lemma logs_kills: "filter is_log (map (\<lambda>p. Kill (snd p)) ps) = []"
  by (induction ps) simp_all

subsection \<open>Stopping\<close>

text \<open>The two loops and the function, when no signal arrives while they run.\<close>

lemma terminate_loop_run:
  assumes "\<forall>t. clock w \<le> t \<and> t < clock w + length ps \<longrightarrow> \<not> interrupt_at E t"
  shows "fst (terminate_loop E ps w) = Inr () \<and>
         clock (snd (terminate_loop E ps w)) = clock w + length ps \<and>
         next_handle (snd (terminate_loop E ps w)) = next_handle w \<and>
         trace (snd (terminate_loop E ps w)) = trace w @ terminate_trace E ps (clock w)"
  using assms
proof (induction ps arbitrary: w)
  case Nil
  then show ?case by simp
next
  case (Cons p ps)
  obtain name proc where p: "p = (name, proc)" by (cases p)
  from Cons.prems have now: "\<not> interrupt_at E (clock w)" by simp
  show ?case
  proof (cases "terminate_raises E proc (clock w)")
    case True
    let ?w1 = "logger DEBUG (AlreadyStopped name) (emit (Terminate proc) (tick w))"
    have step: "terminate_loop E ((name, proc) # ps) w = terminate_loop E ps ?w1"
      using now True by (simp add: terminate_def)
    have "\<forall>t. clock ?w1 \<le> t \<and> t < clock ?w1 + length ps \<longrightarrow> \<not> interrupt_at E t"
      using Cons.prems by simp
    from Cons.IH [OF this] show ?thesis
      unfolding p step using True by simp
  next
    case False
    let ?w1 = "emit (Terminate proc) (tick w)"
    have step: "terminate_loop E ((name, proc) # ps) w = terminate_loop E ps ?w1"
      using now False by (simp add: terminate_def)
    have "\<forall>t. clock ?w1 \<le> t \<and> t < clock ?w1 + length ps \<longrightarrow> \<not> interrupt_at E t"
      using Cons.prems by simp
    from Cons.IH [OF this] show ?thesis
      unfolding p step using False by simp
  qed
qed

lemma kill_loop_run:
  assumes "\<forall>t. clock w \<le> t \<and> t < clock w + length ps \<longrightarrow> \<not> interrupt_at E t"
  shows "fst (kill_loop E ps w) = Inr () \<and>
         clock (snd (kill_loop E ps w)) = clock w + length ps \<and>
         next_handle (snd (kill_loop E ps w)) = next_handle w \<and>
         trace (snd (kill_loop E ps w)) = trace w @ map (\<lambda>p. Kill (snd p)) ps"
  using assms
proof (induction ps arbitrary: w)
  case Nil
  then show ?case by simp
next
  case (Cons p ps)
  obtain name proc where p: "p = (name, proc)" by (cases p)
  let ?w1 = "emit (Kill proc) (tick w)"
  from Cons.prems have "\<not> interrupt_at E (clock w)" by simp
  then have step: "kill_loop E ((name, proc) # ps) w = kill_loop E ps ?w1"
    by (simp add: kill_def)
  have "\<forall>t. clock ?w1 \<le> t \<and> t < clock ?w1 + length ps \<longrightarrow> \<not> interrupt_at E t"
    using Cons.prems by simp
  from Cons.IH [OF this] show ?case
    unfolding p step by simp
qed

lemma stop_processes_run:
  assumes "\<forall>t. clock w \<le> t \<and> t < clock w + 2 * length ps + 1 \<longrightarrow> \<not> interrupt_at E t"
  shows "fst (stop_processes E ps w) = Inr () \<and>
         clock (snd (stop_processes E ps w)) = clock w + 2 * length ps + 1 \<and>
         next_handle (snd (stop_processes E ps w)) = next_handle w \<and>
         trace (snd (stop_processes E ps w)) =
           trace w @ terminate_trace E ps (clock w) @ Sleep 2000 # map (\<lambda>p. Kill (snd p)) ps"
proof -
  obtain r1 w1 where t: "terminate_loop E ps w = (r1, w1)"
    by (cases "terminate_loop E ps w")
  let ?w2 = "emit (Sleep 2000) (tick w1)"
  have "\<forall>t. clock w \<le> t \<and> t < clock w + length ps \<longrightarrow> \<not> interrupt_at E t"
    using assms by simp
  from terminate_loop_run [OF this]
  have r1: "r1 = Inr ()" and c1: "clock w1 = clock w + length ps"
    and h1: "next_handle w1 = next_handle w"
    and tr1: "trace w1 = trace w @ terminate_trace E ps (clock w)"
    by (simp_all add: t)
  have "\<not> interrupt_at E (clock w1)"
    using assms c1 by simp
  then have s: "sleep E 2000 w1 = (Inr (), ?w2)"
    by (simp add: sleep_def)
  have "\<forall>t. clock ?w2 \<le> t \<and> t < clock ?w2 + length ps \<longrightarrow> \<not> interrupt_at E t"
    using assms c1 by simp
  from kill_loop_run [OF this]
  have k: "fst (kill_loop E ps ?w2) = Inr ()"
    "clock (snd (kill_loop E ps ?w2)) = clock ?w2 + length ps"
    "next_handle (snd (kill_loop E ps ?w2)) = next_handle ?w2"
    "trace (snd (kill_loop E ps ?w2)) = trace ?w2 @ map (\<lambda>p. Kill (snd p)) ps"
    by simp_all
  have "stop_processes E ps w = kill_loop E ps ?w2"
    by (simp add: stop_processes_def t r1 s)
  then show ?thesis
    using k c1 h1 tr1 by simp
qed

text \<open>Whatever the environment, an exception that leaves \<^verbatim>\<open>stop_processes\<close> is not one
  of \<^verbatim>\<open>terminate\<close> or \<^verbatim>\<open>kill\<close>: those are all caught.\<close>

lemma terminate_loop_no_OSError: "fst (terminate_loop E ps w) \<noteq> Inl OSError"
  by (induction E ps w rule: terminate_loop.induct)
     (simp_all add: terminate_def split: prod.splits sum.splits exn.splits)

lemma kill_loop_no_OSError: "fst (kill_loop E ps w) \<noteq> Inl OSError"
  by (induction E ps w rule: kill_loop.induct)
     (simp_all add: kill_def  split: prod.splits sum.splits exn.splits)

lemma stop_processes_no_OSError: "fst (stop_processes E ps w) \<noteq> Inl OSError"
  using terminate_loop_no_OSError [of E ps w] kill_loop_no_OSError [of E ps]
  apply (simp add: stop_processes_def sleep_def split: prod.splits sum.splits)
  by (metis fst_conv)

text \<open>
  C5, as amended. For every list of handles, the empty one included, and every behaviour
  of \<^verbatim>\<open>terminate\<close> and \<^verbatim>\<open>kill\<close>, when no interrupt arrives during the call
  \<^verbatim>\<open>stop_processes\<close> returns normally, and what it did to the outside is: a
  \<^verbatim>\<open>terminate\<close> request to every handle in list order, then the sleep of two seconds, then
  a \<^verbatim>\<open>kill\<close> request to every handle in list order. The logger is called once, at debug
  level, for each handle whose \<^verbatim>\<open>terminate\<close> raised, and not at all for a \<^verbatim>\<open>kill\<close>
  that raised; at the configured level INFO none of these calls reaches the output.
\<close>

theorem stop_processes_completes:
  assumes "\<forall>t. clock w \<le> t \<and> t < clock w + 2 * length processes + 1 \<longrightarrow> \<not> interrupt_at E t"
  shows "fst (stop_processes E processes w) = Inr () \<and>
         actions (since w (snd (stop_processes E processes w))) =
           map (\<lambda>p. Terminate (snd p)) processes @ [Sleep 2000] @
           map (\<lambda>p. Kill (snd p)) processes \<and>
         filter is_log (since w (snd (stop_processes E processes w))) =
           map (\<lambda>(t, name, proc). Log DEBUG (AlreadyStopped name))
             (filter (\<lambda>(t, name, proc). terminate_raises E proc t)
                (enumerate (clock w) processes)) \<and>
         log_output (since w (snd (stop_processes E processes w))) = []"
proof -
  let ?w' = "snd (stop_processes E processes w)"
  from stop_processes_run [OF assms]
  have r: "fst (stop_processes E processes w) = Inr ()"
    and "trace ?w' = trace w @ terminate_trace E processes (clock w) @
           Sleep 2000 # map (\<lambda>p. Kill (snd p)) processes"
    by simp_all
  then have s: "since w ?w' = terminate_trace E processes (clock w) @
           Sleep 2000 # map (\<lambda>p. Kill (snd p)) processes"
    by (rule_tac since_append)
  have a: "actions (since w ?w') =
      map (\<lambda>p. Terminate (snd p)) processes @ [Sleep 2000] @ map (\<lambda>p. Kill (snd p)) processes"
    unfolding s actions_append actions_terminate_trace
    using actions_kills [of processes] by (simp add: actions_def)
  have l: "filter is_log (since w ?w') =
      map (\<lambda>(t, name, proc). Log DEBUG (AlreadyStopped name))
        (filter (\<lambda>(t, name, proc). terminate_raises E proc t) (enumerate (clock w) processes))"
    unfolding s by (simp add: logs_terminate_trace logs_kills)
  have o: "log_output (since w ?w') = []"
    unfolding s by (simp add: log_output_append log_output_terminate_trace log_output_kills)
  from r a l o show ?thesis by simp
qed

theorem stop_processes_completes_witness:
  "fst (stop_processes gone [(''K1'', 0), (''K2'', 1)] init) = Inr () \<and>
   actions (since init (snd (stop_processes gone [(''K1'', 0), (''K2'', 1)] init))) =
     [Terminate 0, Terminate 1, Sleep 2000, Kill 0, Kill 1] \<and>
   filter is_log (since init (snd (stop_processes gone [(''K1'', 0), (''K2'', 1)] init))) =
     [Log DEBUG (AlreadyStopped ''K1''), Log DEBUG (AlreadyStopped ''K2'')] \<and>
   log_output (since init (snd (stop_processes gone [(''K1'', 0), (''K2'', 1)] init))) = []"
  using stop_processes_completes [of init "[(''K1'', 0), (''K2'', 1)]" gone]
  by (simp add: gone_def quiet_def init_def enumerate_eq_zip)

text \<open>
  The claim as stated says that an error of either phase is logged. Here \<^verbatim>\<open>kill\<close>
  raises for the only handle, at clock 2, and the trace of the call has no logger call.
\<close>

theorem stop_processes_kill_error_not_logged:
  "kill_raises kill_fails 0 2 \<and>
   stop_processes kill_fails [(''K1'', 0)] init =
     (Inr (), \<lparr>clock = 3, next_handle = 0, trace = [Terminate 0, Sleep 2000, Kill 0]\<rparr>)"
  by (simp add: kill_fails_def quiet_def init_def stop_processes_def terminate_def kill_def
      sleep_def tick_def emit_def)

text \<open>
  C7. Calling \<^verbatim>\<open>stop_processes\<close> twice in a row on the same list, with no interrupt
  during the two calls: both calls return normally, whatever \<^verbatim>\<open>terminate\<close> and
  \<^verbatim>\<open>kill\<close> do on the handles that the first call has already stopped (raise or not);
  the second call makes the same requests again and nothing of it reaches the log output.
\<close>

theorem stop_processes_twice:
  assumes "\<forall>t. clock w \<le> t \<and> t < clock w + 4 * length processes + 2 \<longrightarrow> \<not> interrupt_at E t"
  shows "fst (stop_processes E processes w) = Inr () \<and>
         fst (stop_processes E processes (snd (stop_processes E processes w))) = Inr () \<and>
         actions (since (snd (stop_processes E processes w))
            (snd (stop_processes E processes (snd (stop_processes E processes w))))) =
           map (\<lambda>p. Terminate (snd p)) processes @ [Sleep 2000] @
           map (\<lambda>p. Kill (snd p)) processes \<and>
         log_output (since (snd (stop_processes E processes w))
            (snd (stop_processes E processes (snd (stop_processes E processes w))))) = []"
proof -
  let ?w1 = "snd (stop_processes E processes w)"
  have 1: "\<forall>t. clock w \<le> t \<and> t < clock w + 2 * length processes + 1 \<longrightarrow> \<not> interrupt_at E t"
    using assms by simp
  from stop_processes_run [OF 1]
  have r1: "fst (stop_processes E processes w) = Inr ()"
    and c1: "clock ?w1 = clock w + 2 * length processes + 1"
    by simp_all
  have 2: "\<forall>t. clock ?w1 \<le> t \<and> t < clock ?w1 + 2 * length processes + 1 \<longrightarrow> \<not> interrupt_at E t"
    using assms c1 by simp
  from stop_processes_run [OF 2]
  have r2: "fst (stop_processes E processes ?w1) = Inr ()"
    and "trace (snd (stop_processes E processes ?w1)) =
           trace ?w1 @ terminate_trace E processes (clock ?w1) @
           Sleep 2000 # map (\<lambda>p. Kill (snd p)) processes"
    by simp_all
  then have s: "since ?w1 (snd (stop_processes E processes ?w1)) =
      terminate_trace E processes (clock ?w1) @ Sleep 2000 # map (\<lambda>p. Kill (snd p)) processes"
    by (rule_tac since_append)
  have a: "actions (since ?w1 (snd (stop_processes E processes ?w1))) =
      map (\<lambda>p. Terminate (snd p)) processes @ [Sleep 2000] @ map (\<lambda>p. Kill (snd p)) processes"
    unfolding s actions_append actions_terminate_trace
    using actions_kills [of processes] by (simp add: actions_def)
  have o: "log_output (since ?w1 (snd (stop_processes E processes ?w1))) = []"
    unfolding s by (simp add: log_output_append log_output_terminate_trace log_output_kills)
  from r1 r2 a o show ?thesis by simp
qed

theorem stop_processes_twice_witness:
  "fst (stop_processes gone [(''K1'', 0)] init) = Inr () \<and>
   fst (stop_processes gone [(''K1'', 0)] (snd (stop_processes gone [(''K1'', 0)] init))) = Inr () \<and>
   actions (since (snd (stop_processes gone [(''K1'', 0)] init))
     (snd (stop_processes gone [(''K1'', 0)] (snd (stop_processes gone [(''K1'', 0)] init))))) =
     [Terminate 0, Sleep 2000, Kill 0] \<and>
   log_output (since (snd (stop_processes gone [(''K1'', 0)] init))
     (snd (stop_processes gone [(''K1'', 0)] (snd (stop_processes gone [(''K1'', 0)] init))))) = []"
  using stop_processes_twice [of init "[(''K1'', 0)]" gone]
  by (simp add: gone_def quiet_def init_def)

subsection \<open>Starting\<close>

lemma upt_shift: "[h ..< h + Suc n] = h # [Suc h ..< Suc h + n]"
  by (simp add: upt_rec)

lemma started_Cons:
  "started ((node_name, script) # grp) h =
     [Log INFO (Starting node_name), Spawn node_name script h, Sleep 500] @ started grp (Suc h)"
  unfolding started_def length_Cons upt_shift by simp

lemma start_group_loop_run:
  assumes "\<forall>t. clock w \<le> t \<and> t < clock w + 2 * length grp \<longrightarrow>
             \<not> interrupt_at E t \<and> \<not> spawn_fails E t"
  shows "fst (start_group_loop E grp procs w) =
           Inr (procs @ zip (map fst grp) [next_handle w ..< next_handle w + length grp]) \<and>
         clock (snd (start_group_loop E grp procs w)) = clock w + 2 * length grp \<and>
         next_handle (snd (start_group_loop E grp procs w)) = next_handle w + length grp \<and>
         trace (snd (start_group_loop E grp procs w)) = trace w @ started grp (next_handle w)"
  using assms
proof (induction grp arbitrary: procs w)
  case Nil
  then show ?case by (simp add: started_def)
next
  case (Cons node grp)
  obtain node_name script where node: "node = (node_name, script)" by (cases node)
  let ?h = "next_handle w"
  let ?w1 = "emit (Spawn node_name script ?h)
               ((tick (logger INFO (Starting node_name) w))\<lparr>next_handle := Suc ?h\<rparr>)"
  let ?w2 = "emit (Sleep 500) (tick ?w1)"
  from Cons.prems have "\<not> interrupt_at E (clock w)" "\<not> spawn_fails E (clock w)"
    by simp_all
  then have n: "start_node E node_name script w = (Inr ?h, ?w1)"
    by (simp add: start_node_def popen_def)
  have c1: "clock ?w1 = Suc (clock w)"
    by simp
  from Cons.prems have "\<not> interrupt_at E (Suc (clock w))"
    by simp
  then have s: "sleep E 500 ?w1 = (Inr (), ?w2)"
    by (simp add: sleep_def)
  have step: "start_group_loop E ((node_name, script) # grp) procs w =
      start_group_loop E grp (procs @ [(node_name, ?h)]) ?w2"
    by (simp add: n s del: emit_simps)
  have "\<forall>t. clock ?w2 \<le> t \<and> t < clock ?w2 + 2 * length grp \<longrightarrow>
          \<not> interrupt_at E t \<and> \<not> spawn_fails E t"
    using Cons.prems by simp
  from Cons.IH [OF this, of "procs @ [(node_name, ?h)]"] show ?case
    unfolding node step started_Cons length_Cons upt_shift by simp
qed

text \<open>
  C6. For every group on which no \<^verbatim>\<open>Popen\<close> fails (and no interrupt arrives during the
  call), \<^verbatim>\<open>start_group\<close> returns one pair per node, in the order of the group: the
  node's name with a handle of its own, the handles being given out in that order. What
  it does to the outside is, node after node in that order: the log line
  "Starting name...", the creation of the process from the node's script and name, and
  the pause of half a second, which so comes after each start and before the next.
\<close>

theorem start_group_returns_handles:
  assumes "\<forall>t. clock w \<le> t \<and> t < clock w + 2 * length grp \<longrightarrow>
             \<not> interrupt_at E t \<and> \<not> spawn_fails E t"
  shows "fst (start_group E grp w) =
           Inr (zip (map fst grp) [next_handle w ..< next_handle w + length grp]) \<and>
         since w (snd (start_group E grp w)) =
           concat (map (\<lambda>((node_name, script), proc).
                          [Log INFO (Starting node_name), Spawn node_name script proc, Sleep 500])
                     (zip grp [next_handle w ..< next_handle w + length grp]))"
  using start_group_loop_run [OF assms, of "[]"]
  by (simp add: start_group_def since_append started_def)

theorem start_group_returns_handles_witness:
  "fst (start_group quiet CLIENT_NODES init) = Inr [(''K1'', 0), (''K2'', 1)] \<and>
   since init (snd (start_group quiet CLIENT_NODES init)) =
     [Log INFO (Starting ''K1''), Spawn ''K1'' ''client.py'' 0, Sleep 500,
      Log INFO (Starting ''K2''), Spawn ''K2'' ''client.py'' 1, Sleep 500]"
  using start_group_returns_handles [of init CLIENT_NODES quiet]
  by (simp add: quiet_def init_def CLIENT_NODES_def upt_rec)

text \<open>
  C4. The first service, Q1, is started with handle 0; \<^verbatim>\<open>Popen\<close> then fails for the
  second one, D. The exception leaves \<^verbatim>\<open>start_group\<close> and \<^verbatim>\<open>main\<close>, and the
  \<^verbatim>\<open>finally\<close> block runs, but \<^verbatim>\<open>service_procs\<close> was never assigned: both calls of
  \<^verbatim>\<open>stop_processes\<close> get the empty list, and only their two sleeps are in the trace.
  Handle 0 gets no \<^verbatim>\<open>terminate\<close> and no \<^verbatim>\<open>kill\<close>, and "All nodes stopped." is logged.
\<close>

theorem main_leaks_started_services:
  "main second_spawn_fails init =
     Some (Inl OSError,
       \<lparr>clock = 5, next_handle = 1,
        trace =
          [Log INFO Banner, Log INFO StartingSystem, Log INFO Banner,
           Log INFO (Starting ''Q1''), Spawn ''Q1'' ''q1_node.py'' 0, Sleep 500,
           Log INFO (Starting ''D''),
           Log INFO Banner, Log INFO ShuttingDown, Log INFO Banner,
           Sleep 2000, Sleep 2000, Log INFO AllNodesStopped]\<rparr>)"
  by code_simp

subsection \<open>Polling\<close>

lemma log_output_no_log: "\<forall>e\<in>set es. \<not> is_log e \<Longrightarrow> log_output es = []"
  by (induction es rule: log_output.induct) simp_all

lemma poll_services_none:
  assumes "\<forall>t. clock w \<le> t \<and> t < clock w + length sp \<longrightarrow> \<not> interrupt_at E t"
    and "\<forall>j<length sp. exit_status E (snd (sp ! j)) (clock w + j) = None"
  shows "fst (poll_services E sp w) = Inr False \<and>
         clock (snd (poll_services E sp w)) = clock w + length sp \<and>
         next_handle (snd (poll_services E sp w)) = next_handle w \<and>
         trace (snd (poll_services E sp w)) = trace w @ map (\<lambda>p. Poll (snd p) None) sp"
  using assms
proof (induction sp arbitrary: w)
  case Nil
  then show ?case by simp
next
  case (Cons s sp)
  obtain svc_name svc_proc where s: "s = (svc_name, svc_proc)" by (cases s)
  let ?w1 = "emit (Poll svc_proc None) (tick w)"
  from Cons.prems(1) have "\<not> interrupt_at E (clock w)" by simp
  moreover from Cons.prems(2) [rule_format, of 0] have "exit_status E svc_proc (clock w) = None"
    by (simp add: s)
  ultimately have step: "poll_services E ((svc_name, svc_proc) # sp) w = poll_services E sp ?w1"
    by (simp add: poll_def)
  have 1: "\<forall>t. clock ?w1 \<le> t \<and> t < clock ?w1 + length sp \<longrightarrow> \<not> interrupt_at E t"
    using Cons.prems(1) by simp
  have 2: "\<forall>j<length sp. exit_status E (snd (sp ! j)) (clock ?w1 + j) = None"
  proof (intro allI impI)
    fix j assume "j < length sp"
    with Cons.prems(2) [rule_format, of "Suc j"] show "exit_status E (snd (sp ! j)) (clock ?w1 + j) = None"
      by simp
  qed
  from Cons.IH [OF 1 2] show ?case
    unfolding s step by simp
qed

lemma poll_services_first:
  assumes "i < length sp"
    and "\<forall>t. clock w \<le> t \<and> t \<le> clock w + i \<longrightarrow> \<not> interrupt_at E t"
    and "\<forall>j<i. exit_status E (snd (sp ! j)) (clock w + j) = None"
    and "exit_status E (snd (sp ! i)) (clock w + i) = Some code"
  shows "fst (poll_services E sp w) = Inr True \<and>
         clock (snd (poll_services E sp w)) = clock w + i + 1 \<and>
         next_handle (snd (poll_services E sp w)) = next_handle w \<and>
         trace (snd (poll_services E sp w)) =
           trace w @ map (\<lambda>p. Poll (snd p) None) (take i sp) @
           [Poll (snd (sp ! i)) (Some code), Log ERROR (CriticalExit (fst (sp ! i)) code)]"
  using assms
proof (induction sp arbitrary: w i)
  case Nil
  then show ?case by simp
next
  case (Cons s sp)
  obtain svc_name svc_proc where s: "s = (svc_name, svc_proc)" by (cases s)
  from Cons.prems(2) have now: "\<not> interrupt_at E (clock w)" by simp
  show ?case
  proof (cases i)
    case 0
    with Cons.prems(4) have "exit_status E svc_proc (clock w) = Some code"
      by (simp add: s)
    with now show ?thesis
      by (simp add: s 0 poll_def)
  next
    case (Suc k)
    let ?w1 = "emit (Poll svc_proc None) (tick w)"
    from Cons.prems(3) [rule_format, of 0] have "exit_status E svc_proc (clock w) = None"
      by (simp add: s Suc)
    with now have step: "poll_services E ((svc_name, svc_proc) # sp) w = poll_services E sp ?w1"
      by (simp add: poll_def)
    have 1: "k < length sp" using Cons.prems(1) Suc by simp
    have 2: "\<forall>t. clock ?w1 \<le> t \<and> t \<le> clock ?w1 + k \<longrightarrow> \<not> interrupt_at E t"
      using Cons.prems(2) Suc by simp
    have 3: "\<forall>j<k. exit_status E (snd (sp ! j)) (clock ?w1 + j) = None"
    proof (intro allI impI)
      fix j assume "j < k"
      with Cons.prems(3) [rule_format, of "Suc j"] Suc
      show "exit_status E (snd (sp ! j)) (clock ?w1 + j) = None"
        by simp
    qed
    have 4: "exit_status E (snd (sp ! k)) (clock ?w1 + k) = Some code"
      using Cons.prems(4) Suc by simp
    from Cons.IH [OF 1 2 3 4] show ?thesis
      unfolding s step Suc by simp
  qed
qed

lemma poll_clients_run:
  assumes "\<forall>t. clock w \<le> t \<and> t < clock w + length items \<longrightarrow> \<not> interrupt_at E t"
  shows "fst (poll_clients E items finished w) = Inr (finished @ finished_at E items (clock w)) \<and>
         clock (snd (poll_clients E items finished w)) = clock w + length items \<and>
         next_handle (snd (poll_clients E items finished w)) = next_handle w \<and>
         trace (snd (poll_clients E items finished w)) = trace w @ client_trace E items (clock w)"
  using assms
proof (induction items arbitrary: w finished)
  case Nil
  then show ?case by simp
next
  case (Cons item items)
  obtain name proc where item: "item = (name, proc)" by (cases item)
  from Cons.prems have now: "\<not> interrupt_at E (clock w)" by simp
  show ?case
  proof (cases "exit_status E proc (clock w)")
    case None
    let ?w1 = "emit (Poll proc None) (tick w)"
    from now None
    have step: "poll_clients E ((name, proc) # items) finished w = poll_clients E items finished ?w1"
      by (simp add: poll_def)
    have "\<forall>t. clock ?w1 \<le> t \<and> t < clock ?w1 + length items \<longrightarrow> \<not> interrupt_at E t"
      using Cons.prems by simp
    from Cons.IH [OF this, of finished] show ?thesis
      unfolding item step using None by simp
  next
    case (Some ret)
    let ?w1 = "logger INFO (ClientFinished name ret) (emit (Poll proc (Some ret)) (tick w))"
    from now Some
    have step: "poll_clients E ((name, proc) # items) finished w =
        poll_clients E items (finished @ [name]) ?w1"
      by (simp add: poll_def)
    have "\<forall>t. clock ?w1 \<le> t \<and> t < clock ?w1 + length items \<longrightarrow> \<not> interrupt_at E t"
      using Cons.prems by simp
    from Cons.IH [OF this, of "finished @ [name]"] show ?thesis
      unfolding item step using Some by simp
  qed
qed

lemma finished_at_all:
  assumes "\<forall>(name, proc)\<in>set items. \<forall>t\<ge>c. exit_status E proc t \<noteq> None"
  shows "finished_at E items c = map fst items"
  using assms
proof (induction items arbitrary: c)
  case Nil
  then show ?case by simp
next
  case (Cons item items)
  obtain name proc where item: "item = (name, proc)" by (cases item)
  from Cons.prems have now: "exit_status E proc c \<noteq> None"
    by (simp add: item)
  have "\<forall>(name, proc)\<in>set items. \<forall>t\<ge>Suc c. exit_status E proc t \<noteq> None"
    using Cons.prems by fastforce
  from Cons.IH [OF this] now show ?case
    by (simp add: item)
qed

lemma finished_at_subset: "set (finished_at E items c) \<subseteq> fst ` set items"
  by (induction E items c rule: finished_at.induct) auto

lemma pop_all_filter: "pop_all finished remaining = filter (\<lambda>p. fst p \<notin> set finished) remaining"
proof (induction finished arbitrary: remaining)
  case Nil
  then show ?case by (simp add: pop_all_def)
next
  case (Cons name finished)
  have "pop_all (name # finished) remaining = pop_all finished (AList.delete name remaining)"
    by (simp add: pop_all_def)
  also have "\<dots> = filter (\<lambda>p. fst p \<notin> set finished) (filter (\<lambda>p. name \<noteq> fst p) remaining)"
    by (simp add: Cons.IH AList.delete_eq case_prod_unfold)
  also have "\<dots> = filter (\<lambda>p. fst p \<notin> set (name # finished)) remaining"
    by (induction remaining) auto
  finally show ?case .
qed

lemma pop_all_everything: "pop_all (map fst remaining) remaining = []"
  by (simp add: pop_all_filter filter_empty_conv)

lemma pop_all_subset: "set (pop_all finished remaining) \<subseteq> set remaining"
  by (simp add: pop_all_filter)

subsection \<open>One pass through the loop of the monitor\<close>

lemma wait_body_service_failed:
  assumes "i < length sp"
    and "\<forall>t. clock w \<le> t \<and> t \<le> clock w + 1 + i \<longrightarrow> \<not> interrupt_at E t"
    and "\<forall>j<i. exit_status E (snd (sp ! j)) (clock w + 1 + j) = None"
    and "exit_status E (snd (sp ! i)) (clock w + 1 + i) = Some code"
  shows "fst (wait_body E remaining sp w) = Inr None \<and>
         trace (snd (wait_body E remaining sp w)) =
           trace w @ Sleep 1000 # map (\<lambda>p. Poll (snd p) None) (take i sp) @
           [Poll (snd (sp ! i)) (Some code), Log ERROR (CriticalExit (fst (sp ! i)) code)]"
proof -
  let ?w1 = "emit (Sleep 1000) (tick w)"
  obtain r2 w2 where p: "poll_services E sp ?w1 = (r2, w2)"
    by (cases "poll_services E sp ?w1")
  from assms(2) have "\<not> interrupt_at E (clock w)" by simp
  then have s: "sleep E 1000 w = (Inr (), ?w1)"
    by (simp add: sleep_def)
  have 2: "\<forall>t. clock ?w1 \<le> t \<and> t \<le> clock ?w1 + i \<longrightarrow> \<not> interrupt_at E t"
    using assms(2) by simp
  have 3: "\<forall>j<i. exit_status E (snd (sp ! j)) (clock ?w1 + j) = None"
    using assms(3) by simp
  have 4: "exit_status E (snd (sp ! i)) (clock ?w1 + i) = Some code"
    using assms(4) by simp
  from poll_services_first [OF assms(1) 2 3 4]
  have r2: "r2 = Inr True"
    and t2: "trace w2 = trace ?w1 @ map (\<lambda>p. Poll (snd p) None) (take i sp) @
           [Poll (snd (sp ! i)) (Some code), Log ERROR (CriticalExit (fst (sp ! i)) code)]"
    by (simp_all add: p)
  have "wait_body E remaining sp w = (Inr None, w2)"
    by (simp add: wait_body_def s p r2)
  with t2 show ?thesis by simp
qed

lemma wait_body_polls_clients:
  assumes "\<forall>t. clock w \<le> t \<and> t < clock w + 1 + length sp + length remaining \<longrightarrow>
             \<not> interrupt_at E t"
    and "\<forall>j<length sp. exit_status E (snd (sp ! j)) (clock w + 1 + j) = None"
  shows "fst (wait_body E remaining sp w) =
           Inr (Some (pop_all (finished_at E remaining (clock w + 1 + length sp)) remaining)) \<and>
         clock (snd (wait_body E remaining sp w)) = clock w + 1 + length sp + length remaining \<and>
         next_handle (snd (wait_body E remaining sp w)) = next_handle w \<and>
         trace (snd (wait_body E remaining sp w)) =
           trace w @ Sleep 1000 # map (\<lambda>p. Poll (snd p) None) sp @
           client_trace E remaining (clock w + 1 + length sp)"
proof -
  let ?w1 = "emit (Sleep 1000) (tick w)"
  obtain r2 w2 where p: "poll_services E sp ?w1 = (r2, w2)"
    by (cases "poll_services E sp ?w1")
  obtain r3 w3 where q: "poll_clients E remaining [] w2 = (r3, w3)"
    by (cases "poll_clients E remaining [] w2")
  from assms(1) have "\<not> interrupt_at E (clock w)" by simp
  then have s: "sleep E 1000 w = (Inr (), ?w1)"
    by (simp add: sleep_def)
  have 1: "\<forall>t. clock ?w1 \<le> t \<and> t < clock ?w1 + length sp \<longrightarrow> \<not> interrupt_at E t"
    using assms(1) by simp
  have 2: "\<forall>j<length sp. exit_status E (snd (sp ! j)) (clock ?w1 + j) = None"
    using assms(2) by simp
  from poll_services_none [OF 1 2]
  have r2: "r2 = Inr False" and c2: "clock w2 = clock w + 1 + length sp"
    and h2: "next_handle w2 = next_handle w"
    and t2: "trace w2 = trace w @ Sleep 1000 # map (\<lambda>p. Poll (snd p) None) sp"
    by (simp_all add: p)
  have 3: "\<forall>t. clock w2 \<le> t \<and> t < clock w2 + length remaining \<longrightarrow> \<not> interrupt_at E t"
    using assms(1) c2 by simp
  from poll_clients_run [OF 3, of "[]"]
  have r3: "r3 = Inr (finished_at E remaining (clock w2))"
    and c3: "clock w3 = clock w2 + length remaining"
    and h3: "next_handle w3 = next_handle w2"
    and t3: "trace w3 = trace w2 @ client_trace E remaining (clock w2)"
    by (simp_all add: q)
  have "wait_body E remaining sp w =
      (Inr (Some (pop_all (finished_at E remaining (clock w2)) remaining)), w3)"
    by (simp add: wait_body_def s p r2 q r3)
  then show ?thesis
    using c2 h2 t2 c3 h3 t3 by simp
qed

lemma wait_body_remaining:
  assumes "wait_body E remaining sp w = (Inr (Some remaining'), w1)"
  shows "set remaining' \<subseteq> set remaining"
  using assms pop_all_subset
  by (auto simp add: wait_body_def split: prod.splits sum.splits bool.splits)

text \<open>Nothing in the loop creates a process.\<close>

lemma no_spawn_refl [simp]: "no_spawn w w"
  by (simp add: no_spawn_def)

lemma no_spawn_trans: "no_spawn w w1 \<Longrightarrow> no_spawn w1 w2 \<Longrightarrow> no_spawn w w2"
  by (simp add: no_spawn_def)

lemma no_spawn_sleep: "no_spawn w (snd (sleep E ms w))"
  by (simp add: no_spawn_def sleep_def)

lemma no_spawn_poll: "no_spawn w (snd (poll E proc w))"
  by (simp add: no_spawn_def poll_def)

lemma no_spawn_logger: "no_spawn w (logger l m w)"
  by (simp add: no_spawn_def)

lemma no_spawn_poll_services: "no_spawn w (snd (poll_services E sp w))"
proof (induction sp arbitrary: w)
  case Nil
  show ?case by simp
next
  case (Cons s sp)
  obtain svc_name svc_proc where s: "s = (svc_name, svc_proc)" by (cases s)
  obtain r1 w1 where p: "poll E svc_proc w = (r1, w1)" by (cases "poll E svc_proc w")
  from no_spawn_poll [of w E svc_proc] have 1: "no_spawn w w1" by (simp add: p)
  show ?case
  proof (cases r1)
    case (Inl e)
    with 1 show ?thesis by (simp add: s p)
  next
    case (Inr status)
    show ?thesis
    proof (cases status)
      case None
      with Inr have "poll_services E ((svc_name, svc_proc) # sp) w = poll_services E sp w1"
        by (simp add: p)
      with no_spawn_trans [OF 1 Cons.IH [of w1]] show ?thesis by (simp add: s)
    next
      case (Some returncode)
      with Inr have "snd (poll_services E ((svc_name, svc_proc) # sp) w) =
          logger ERROR (CriticalExit svc_name returncode) w1"
        by (simp add: p)
      with no_spawn_trans [OF 1 no_spawn_logger] show ?thesis by (simp add: s)
    qed
  qed
qed

lemma no_spawn_poll_clients: "no_spawn w (snd (poll_clients E items finished w))"
proof (induction items arbitrary: w finished)
  case Nil
  show ?case by simp
next
  case (Cons item items)
  obtain name proc where item: "item = (name, proc)" by (cases item)
  obtain r1 w1 where p: "poll E proc w = (r1, w1)" by (cases "poll E proc w")
  from no_spawn_poll [of w E proc] have 1: "no_spawn w w1" by (simp add: p)
  show ?case
  proof (cases r1)
    case (Inl e)
    with 1 show ?thesis by (simp add: item p)
  next
    case (Inr status)
    show ?thesis
    proof (cases status)
      case None
      with Inr have "poll_clients E ((name, proc) # items) finished w =
          poll_clients E items finished w1"
        by (simp add: p)
      with no_spawn_trans [OF 1 Cons.IH [of w1 finished]] show ?thesis by (simp add: item)
    next
      case (Some ret)
      let ?w2 = "logger INFO (ClientFinished name ret) w1"
      from Some Inr have "poll_clients E ((name, proc) # items) finished w =
          poll_clients E items (finished @ [name]) ?w2"
        by (simp add: p)
      with no_spawn_trans [OF no_spawn_trans [OF 1 no_spawn_logger] Cons.IH [of ?w2]]
      show ?thesis by (simp add: item)
    qed
  qed
qed

lemma no_spawn_wait_body: "no_spawn w (snd (wait_body E remaining sp w))"
proof -
  obtain r1 w1 where s: "sleep E 1000 w = (r1, w1)" by (cases "sleep E 1000 w")
  obtain r2 w2 where p: "poll_services E sp w1 = (r2, w2)" by (cases "poll_services E sp w1")
  obtain r3 w3 where q: "poll_clients E remaining [] w2 = (r3, w3)"
    by (cases "poll_clients E remaining [] w2")
  from no_spawn_sleep [of w E 1000] have 1: "no_spawn w w1" by (simp add: s)
  from no_spawn_poll_services [of w1 E sp] have "no_spawn w1 w2" by (simp add: p)
  with 1 have 2: "no_spawn w w2" by (rule no_spawn_trans)
  from no_spawn_poll_clients [of w2 E remaining "[]"] have "no_spawn w2 w3" by (simp add: q)
  with 2 have 3: "no_spawn w w3" by (rule no_spawn_trans)
  from 1 2 3 show ?thesis
    by (simp add: wait_body_def s p q split: sum.split bool.split)
qed

lemma no_spawn_wait_loop:
  assumes "wait_loop E remaining sp w = Some y"
  shows "no_spawn w (snd y)"
  using assms
proof (induction E remaining sp w y rule: wait_loop.raw_induct)
  case (1 wait_loop' E remaining sp w y)
  show ?case
  proof (cases "remaining = []")
    case True
    with 1(2) show ?thesis by (auto simp add: no_spawn_logger)
  next
    case False
    obtain r1 w1 where b: "wait_body E remaining sp w = (r1, w1)"
      by (cases "wait_body E remaining sp w")
    from no_spawn_wait_body [of w E remaining sp] have n: "no_spawn w w1" by (simp add: b)
    show ?thesis
    proof (cases r1)
      case (Inl e)
      with 1(2) False n show ?thesis by (auto simp add: b)
    next
      case (Inr step)
      show ?thesis
      proof (cases step)
        case None
        with 1(2) False n Inr show ?thesis by (auto simp add: b)
      next
        case (Some remaining')
        with 1(2) False Inr have "wait_loop' E remaining' sp w1 = Some y"
          by (simp add: b)
        moreover from 1(3) Some False Inr have "wait_loop E remaining' sp w1 = Some y"
          by (subst (asm) wait_loop.simps) (simp add: b)
        ultimately have "no_spawn w1 (snd y)" by (rule 1(1))
        with n show ?thesis by (rule no_spawn_trans)
      qed
    qed
  qed
qed (rule assms)

text \<open>The loop reads nothing of the environment but the signal and the exit codes.\<close>

lemma sleep_env: "interrupt_at E' = interrupt_at E \<Longrightarrow> sleep E' ms w = sleep E ms w"
  by (simp add: sleep_def)

lemma poll_env:
  "interrupt_at E' = interrupt_at E \<Longrightarrow> exit_status E' = exit_status E \<Longrightarrow>
   poll E' proc w = poll E proc w"
  by (simp add: poll_def)

lemma poll_services_env:
  assumes "interrupt_at E' = interrupt_at E" and "exit_status E' = exit_status E"
  shows "poll_services E' sp w = poll_services E sp w"
proof (induction sp arbitrary: w)
  case Nil
  show ?case by simp
next
  case (Cons s sp)
  then show ?case
    by (cases s) (simp add: poll_env [OF assms] split: prod.split sum.split option.split)
qed

lemma poll_clients_env:
  assumes "interrupt_at E' = interrupt_at E" and "exit_status E' = exit_status E"
  shows "poll_clients E' items finished w = poll_clients E items finished w"
proof (induction items arbitrary: w finished)
  case Nil
  show ?case by simp
next
  case (Cons item items)
  then show ?case
    by (cases item) (simp add: poll_env [OF assms] split: prod.split sum.split option.split)
qed

lemma wait_body_env:
  assumes "interrupt_at E' = interrupt_at E" and "exit_status E' = exit_status E"
  shows "wait_body E' remaining sp w = wait_body E remaining sp w"
  unfolding wait_body_def sleep_env [OF assms(1)] poll_services_env [OF assms]
    poll_clients_env [OF assms] ..

lemma wait_loop_env_Some:
  assumes "wait_loop E remaining sp w = Some y"
    and "interrupt_at E' = interrupt_at E" and "exit_status E' = exit_status E"
  shows "wait_loop E' remaining sp w = Some y"
  using assms
proof (induction E remaining sp w y rule: wait_loop.raw_induct)
  case (1 wait_loop' E remaining sp w y)
  note b = wait_body_env [OF 1(4,5), of remaining sp w]
  show ?case
  proof (cases "remaining = []")
    case True
    with 1(2) show ?thesis
      by (subst wait_loop.simps) simp
  next
    case False
    obtain r1 w1 where r: "wait_body E remaining sp w = (r1, w1)"
      by (cases "wait_body E remaining sp w")
    show ?thesis
    proof (cases r1)
      case (Inl e)
      with 1(2) False show ?thesis
        by (subst wait_loop.simps) (simp add: b r)
    next
      case (Inr step)
      show ?thesis
      proof (cases step)
        case None
        with 1(2) False Inr show ?thesis
          by (subst wait_loop.simps) (simp add: b r)
      next
        case (Some remaining')
        with 1(2) False Inr have "wait_loop' E remaining' sp w1 = Some y"
          by (simp add: r)
        moreover from 1(3) Some False Inr have "wait_loop E remaining' sp w1 = Some y"
          by (subst (asm) wait_loop.simps) (simp add: r)
        ultimately have "wait_loop E' remaining' sp w1 = Some y"
          using 1(4,5) by (rule 1(1))
        with False Inr Some show ?thesis
          by (subst wait_loop.simps) (simp add: b r)
      qed
    qed
  qed
qed (rule assms(1))

lemma wait_loop_env:
  assumes "interrupt_at E' = interrupt_at E" and "exit_status E' = exit_status E"
  shows "wait_loop E' remaining sp w = wait_loop E remaining sp w"
proof (cases "wait_loop E remaining sp w")
  case (Some y)
  from wait_loop_env_Some [OF this assms] Some show ?thesis by simp
next
  case None
  show ?thesis
  proof (cases "wait_loop E' remaining sp w")
    case (Some y)
    from wait_loop_env_Some [OF this assms [symmetric]] None show ?thesis by simp
  next
    case None': None
    with None show ?thesis by simp
  qed
qed

subsection \<open>The monitor\<close>

lemma wait_loop_first_exited:
  assumes "remaining \<noteq> []"
    and "i < length service_procs"
    and "\<forall>t. clock w \<le> t \<and> t \<le> clock w + 1 + i \<longrightarrow> \<not> interrupt_at E t"
    and "\<forall>j<i. exit_status E (snd (service_procs ! j)) (clock w + 1 + j) = None"
    and "exit_status E (snd (service_procs ! i)) (clock w + 1 + i) = Some code"
  shows "\<exists>w'. wait_loop E remaining service_procs w = Some (Inr (), w') \<and>
           since w w' =
             Sleep 1000 # map (\<lambda>p. Poll (snd p) None) (take i service_procs) @
             [Poll (snd (service_procs ! i)) (Some code),
              Log ERROR (CriticalExit (fst (service_procs ! i)) code)]"
proof -
  obtain r1 w1 where b: "wait_body E remaining service_procs w = (r1, w1)"
    by (cases "wait_body E remaining service_procs w")
  from wait_body_service_failed [OF assms(2-5), of remaining]
  have "r1 = Inr None"
    and "trace w1 = trace w @ Sleep 1000 # map (\<lambda>p. Poll (snd p) None) (take i service_procs) @
           [Poll (snd (service_procs ! i)) (Some code),
            Log ERROR (CriticalExit (fst (service_procs ! i)) code)]"
    by (simp_all add: b)
  moreover from this assms(1) have "wait_loop E remaining service_procs w = Some (Inr (), w1)"
    by (subst wait_loop.simps) (simp add: b)
  ultimately show ?thesis
    by (simp add: since_append)
qed

lemma wait_loop_finishes:
  assumes "\<forall>t\<ge>clock w. \<not> interrupt_at E t"
    and "\<forall>(name, proc)\<in>set sp. \<forall>t\<ge>clock w. exit_status E proc t = None"
    and "\<forall>(name, proc)\<in>set remaining. \<forall>t\<ge>T. exit_status E proc t \<noteq> None"
  shows "\<exists>w'. wait_loop E remaining sp w = Some (Inr (), w') \<and>
           last (trace w') = Log INFO AllClientsFinished"
  using assms
proof (induction "T - clock w" arbitrary: w remaining rule: less_induct)
  case less
  show ?case
  proof (cases "remaining = []")
    case True
    then show ?thesis
      by (subst wait_loop.simps) simp
  next
    case False
    let ?c = "clock w + 1 + length sp"
    let ?remaining' = "pop_all (finished_at E remaining ?c) remaining"
    obtain r1 w1 where b: "wait_body E remaining sp w = (r1, w1)"
      by (cases "wait_body E remaining sp w")
    have 1: "\<forall>t. clock w \<le> t \<and> t < clock w + 1 + length sp + length remaining \<longrightarrow>
        \<not> interrupt_at E t"
      using less.prems(1) by simp
    have 2: "\<forall>j<length sp. exit_status E (snd (sp ! j)) (clock w + 1 + j) = None"
    proof (intro allI impI)
      fix j assume "j < length sp"
      then have "sp ! j \<in> set sp" by simp
      with less.prems(2) show "exit_status E (snd (sp ! j)) (clock w + 1 + j) = None"
        by (cases "sp ! j") fastforce
    qed
    from wait_body_polls_clients [OF 1 2]
    have r1: "r1 = Inr (Some ?remaining')"
      and c1: "clock w1 = clock w + 1 + length sp + length remaining"
      by (simp_all add: b)
    from False have step: "wait_loop E remaining sp w = wait_loop E ?remaining' sp w1"
      by (subst wait_loop.simps) (simp add: b r1)
    show ?thesis
    proof (cases "T \<le> clock w")
      case True
      have "\<forall>(name, proc)\<in>set remaining. \<forall>t\<ge>?c. exit_status E proc t \<noteq> None"
        using less.prems(3) True by fastforce
      then have "finished_at E remaining ?c = map fst remaining"
        by (rule finished_at_all)
      then have "?remaining' = []"
        by (simp add: pop_all_everything)
      then have "wait_loop E remaining sp w = Some (Inr (), logger INFO AllClientsFinished w1)"
        unfolding step by (subst wait_loop.simps) simp
      then show ?thesis by simp
    next
      case False
      then have m: "T - clock w1 < T - clock w"
        using c1 by simp
      have 3: "\<forall>t\<ge>clock w1. \<not> interrupt_at E t"
        using less.prems(1) c1 by simp
      have 4: "\<forall>(name, proc)\<in>set sp. \<forall>t\<ge>clock w1. exit_status E proc t = None"
        using less.prems(2) c1 by fastforce
      have 5: "\<forall>(name, proc)\<in>set ?remaining'. \<forall>t\<ge>T. exit_status E proc t \<noteq> None"
        using less.prems(3) pop_all_subset [of "finished_at E remaining ?c" remaining] by blast
      from less.hyps [OF m 3 4 5] show ?thesis
        unfolding step .
    qed
  qed
qed

text \<open>
  C1, as amended. While a client is pending, if at its poll of the pass some service has
  exited (and no interrupt arrives before), the loop ends in that pass: after the sleep
  the services are polled in list order up to the first one that has exited, no client is
  polled, so nothing that the clients did is seen, the one line that reaches the log is
  the error "Critical node name exited early (code code)" for that service, and
  \<^verbatim>\<open>wait_for_clients\<close> returns normally. It returns \<^verbatim>\<open>None\<close>: the name and the code
  are in the log line, not in the result.
\<close>

theorem wait_loop_service_failed:
  assumes "remaining \<noteq> []"
    and "\<forall>t. clock w \<le> t \<and> t \<le> clock w + length service_procs \<longrightarrow> \<not> interrupt_at E t"
    and "\<exists>i<length service_procs.
           exit_status E (snd (service_procs ! i)) (clock w + 1 + i) \<noteq> None"
  shows "\<exists>w' k svc_name svc_proc code.
           wait_loop E remaining service_procs w = Some (Inr (), w') \<and>
           k < length service_procs \<and> service_procs ! k = (svc_name, svc_proc) \<and>
           actions (since w w') =
             Sleep 1000 # map (\<lambda>p. Poll (snd p) None) (take k service_procs) @
             [Poll svc_proc (Some code)] \<and>
           log_output (since w w') = [(ERROR, CriticalExit svc_name code)]"
proof -
  let ?exited = "\<lambda>i. i < length service_procs \<and>
    exit_status E (snd (service_procs ! i)) (clock w + 1 + i) \<noteq> None"
  from assms(3) have "\<exists>i. ?exited i" by blast
  then obtain k where k: "?exited k" and least: "\<forall>j<k. \<not> ?exited j"
    unfolding exists_least_iff [of ?exited] by blast
  from k obtain code where
    code: "exit_status E (snd (service_procs ! k)) (clock w + 1 + k) = Some code"
    by blast
  obtain svc_name svc_proc where s: "service_procs ! k = (svc_name, svc_proc)"
    by (cases "service_procs ! k")
  have 1: "k < length service_procs" using k by simp
  have 2: "\<forall>t. clock w \<le> t \<and> t \<le> clock w + 1 + k \<longrightarrow> \<not> interrupt_at E t"
    using assms(2) 1 by simp
  have 3: "\<forall>j<k. exit_status E (snd (service_procs ! j)) (clock w + 1 + j) = None"
    using least 1 by simp
  from wait_loop_first_exited [OF assms(1) 1 2 3 code]
  obtain w' where r: "wait_loop E remaining service_procs w = Some (Inr (), w')"
    and t: "since w w' =
      Sleep 1000 # map (\<lambda>p. Poll (snd p) None) (take k service_procs) @
      [Poll svc_proc (Some code), Log ERROR (CriticalExit svc_name code)]"
    by (auto simp add: s)
  have n: "\<forall>e\<in>set (map (\<lambda>p. Poll (snd p) None) (take k service_procs)). \<not> is_log e"
    by simp
  have a: "actions (since w w') =
      Sleep 1000 # map (\<lambda>p. Poll (snd p) None) (take k service_procs) @
      [Poll svc_proc (Some code)]"
    unfolding t actions_def using n by (simp add: filter_id_conv)
  have l: "log_output (since w w') = [(ERROR, CriticalExit svc_name code)]"
    unfolding t using log_output_no_log [OF n] by (simp add: log_output_append)
  from r 1 s a l show ?thesis by blast
qed

theorem wait_loop_service_failed_witness:
  "\<exists>w' k svc_name svc_proc code.
     wait_loop service_dies [(''K1'', 1)] [(''Q1'', 0)] init = Some (Inr (), w') \<and>
     k < length [(''Q1'', 0::nat)] \<and> [(''Q1'', 0)] ! k = (svc_name, svc_proc) \<and>
     actions (since init w') =
       Sleep 1000 # map (\<lambda>p. Poll (snd p) None) (take k [(''Q1'', 0)]) @
       [Poll svc_proc (Some code)] \<and>
     log_output (since init w') = [(ERROR, CriticalExit svc_name code)]"
  using wait_loop_service_failed [of "[(''K1'', 1)]" init "[(''Q1'', 0)]" service_dies]
  by (simp add: service_dies_def quiet_def init_def)

text \<open>
  The claim as stated has the outcome returned as the result of the monitor. Here a
  service has exited in the first run and the only client in the second: the result is
  the same \<open>Inr ()\<close> in both, and the runs differ by their log lines only.
\<close>

theorem wait_for_clients_returns_nothing:
  "wait_for_clients service_dies [(''K1'', 1)] [(''Q1'', 0)] init =
     Some (Inr (),
       \<lparr>clock = 2, next_handle = 0,
        trace = [Log INFO Waiting, Sleep 1000, Poll 0 (Some 1),
                 Log ERROR (CriticalExit ''Q1'' 1)]\<rparr>) \<and>
   wait_for_clients client_done [(''K1'', 1)] [(''Q1'', 0)] init =
     Some (Inr (),
       \<lparr>clock = 3, next_handle = 0,
        trace = [Log INFO Waiting, Sleep 1000, Poll 0 None, Poll 1 (Some 0),
                 Log INFO (ClientFinished ''K1'' 0), Log INFO AllClientsFinished]\<rparr>) \<and>
   map_option fst (wait_for_clients service_dies [(''K1'', 1)] [(''Q1'', 0)] init) =
   map_option fst (wait_for_clients client_done [(''K1'', 1)] [(''Q1'', 0)] init)"
  by code_simp

text \<open>
  C10. The service in the error line is the first one in the order of the list whose
  poll is not \<^verbatim>\<open>None\<close>: if the services before position \<open>i\<close> have not exited at their
  polls and the one at \<open>i\<close> has, with \<open>code\<close>, the loop returns after exactly these polls
  and the error line names the service at \<open>i\<close> and \<open>code\<close>, whatever the services after
  it have done and whenever they did it. The run is a function of the answers to the
  polls (and of the signal): two environments that agree on them give the same run.
\<close>

theorem wait_loop_reports_first_exited:
  assumes "remaining \<noteq> []"
    and "i < length service_procs"
    and "\<forall>t. clock w \<le> t \<and> t \<le> clock w + 1 + i \<longrightarrow> \<not> interrupt_at E t"
    and "\<forall>j<i. exit_status E (snd (service_procs ! j)) (clock w + 1 + j) = None"
    and "exit_status E (snd (service_procs ! i)) (clock w + 1 + i) = Some code"
  shows "(\<exists>w'. wait_loop E remaining service_procs w = Some (Inr (), w') \<and>
            since w w' =
              Sleep 1000 # map (\<lambda>p. Poll (snd p) None) (take i service_procs) @
              [Poll (snd (service_procs ! i)) (Some code),
               Log ERROR (CriticalExit (fst (service_procs ! i)) code)]) \<and>
         (\<forall>E'. interrupt_at E' = interrupt_at E \<and> exit_status E' = exit_status E \<longrightarrow>
            wait_loop E' remaining service_procs w = wait_loop E remaining service_procs w)"
  using wait_loop_first_exited [OF assms] wait_loop_env by blast

theorem wait_loop_reports_first_exited_witness:
  "(\<exists>w'. wait_loop two_exited [(''K1'', 3)] [(''Q1'', 0), (''D'', 1), (''P11'', 2)] init =
            Some (Inr (), w') \<and>
          since init w' =
            [Sleep 1000, Poll 0 None, Poll 1 (Some 7), Log ERROR (CriticalExit ''D'' 7)]) \<and>
   (\<forall>E'. interrupt_at E' = interrupt_at two_exited \<and> exit_status E' = exit_status two_exited \<longrightarrow>
      wait_loop E' [(''K1'', 3)] [(''Q1'', 0), (''D'', 1), (''P11'', 2)] init =
      wait_loop two_exited [(''K1'', 3)] [(''Q1'', 0), (''D'', 1), (''P11'', 2)] init)"
proof -
  let ?sp = "[(''Q1'', 0), (''D'', 1), (''P11'', 2)] :: procs"
  have 1: "[(''K1'', 3::nat)] \<noteq> []" by simp
  have 2: "1 < length ?sp" by simp
  have 3: "\<forall>t. clock init \<le> t \<and> t \<le> clock init + 1 + 1 \<longrightarrow> \<not> interrupt_at two_exited t"
    by (simp add: two_exited_def quiet_def)
  have 4: "\<forall>j<1. exit_status two_exited (snd (?sp ! j)) (clock init + 1 + j) = None"
    by (simp add: two_exited_def quiet_def)
  have 5: "exit_status two_exited (snd (?sp ! 1)) (clock init + 1 + 1) = Some 7"
    by (simp add: two_exited_def quiet_def)
  note w = wait_loop_reports_first_exited [OF 1 2 3 4 5]
  from w [THEN conjunct1]
  have "\<exists>w'. wait_loop two_exited [(''K1'', 3)] ?sp init = Some (Inr (), w') \<and>
      since init w' =
        [Sleep 1000, Poll 0 None, Poll 1 (Some 7), Log ERROR (CriticalExit ''D'' 7)]"
    by simp
  with w [THEN conjunct2] show ?thesis
    by (rule_tac conjI)
qed

text \<open>
  C2. When no interrupt arrives and no service exits, and every pending client has exited
  from some time \<open>T\<close> on, the loop terminates: it returns normally and its last log line
  is "All clients finished. Shutting down services.". During the loop no process is
  created (no spawn event is added and no handle is given out), and the dictionary
  after a pass through the body holds only items that it held before the pass.
\<close>

theorem wait_loop_clients_finished:
  assumes "\<forall>t\<ge>clock w. \<not> interrupt_at E t"
    and "\<forall>(name, proc)\<in>set service_procs. \<forall>t\<ge>clock w. exit_status E proc t = None"
    and "\<forall>(name, proc)\<in>set remaining. \<forall>t\<ge>T. exit_status E proc t \<noteq> None"
  shows "(\<exists>w'. wait_loop E remaining service_procs w = Some (Inr (), w') \<and>
            last (trace w') = Log INFO AllClientsFinished \<and>
            next_handle w' = next_handle w \<and>
            filter is_spawn (trace w') = filter is_spawn (trace w)) \<and>
         (\<forall>remaining' w1.
            wait_body E remaining service_procs w = (Inr (Some remaining'), w1) \<longrightarrow>
            set remaining' \<subseteq> set remaining)"
proof -
  from wait_loop_finishes [OF assms]
  obtain w' where r: "wait_loop E remaining service_procs w = Some (Inr (), w')"
    and l: "last (trace w') = Log INFO AllClientsFinished"
    by blast
  from no_spawn_wait_loop [OF r]
  have "next_handle w' = next_handle w \<and> filter is_spawn (trace w') = filter is_spawn (trace w)"
    by (simp add: no_spawn_def)
  with r l wait_body_remaining [of E remaining service_procs w] show ?thesis
    by blast
qed

theorem wait_loop_clients_finished_witness:
  "(\<exists>w'. wait_loop late_client [(''K1'', 1)] [(''Q1'', 0)] init = Some (Inr (), w') \<and>
          last (trace w') = Log INFO AllClientsFinished \<and>
          next_handle w' = next_handle init \<and>
          filter is_spawn (trace w') = filter is_spawn (trace init)) \<and>
   (\<forall>remaining' w1.
      wait_body late_client [(''K1'', 1)] [(''Q1'', 0)] init = (Inr (Some remaining'), w1) \<longrightarrow>
      set remaining' \<subseteq> set [(''K1'', 1)])"
  using wait_loop_clients_finished [of init late_client "[(''Q1'', 0)]" "[(''K1'', 1)]" 4]
  by (simp add: late_client_def quiet_def init_def)

end
